theory Spec2Isabelle
  imports Main
begin

section \<open>Backup and restore of encrypted files (cryptage.py)\<close>

text \<open>
  The script has two functions, \<open>sauvegarder_et_chiffrer\<close> (copy a file, or the files
  of a directory, and encrypt every copy) and \<open>dechiffrer_fichiers\<close> (decrypt a file, or
  the files of a directory, and delete the encrypted ones). Both work through the
  operating system's file system and the \<open>cryptography\<close> library's Fernet cipher.
  Neither is code of the script, so both are modelled here:
  \<^item> the file system is a map from absolute locations (lists of names) to nodes, a
    regular file with its bytes or a directory with its listing, in the order
    \<open>os.listdir\<close> returns it; there are no symbolic links, no permissions and no
    device errors, and \<open>os.path\<close> is \<open>posixpath\<close>;
  \<^item> the cipher is a parameter: a record of the functions the script calls
    (\<open>Fernet.generate_key\<close>, the \<open>Fernet(key)\<close> constructor's check of the key,
    \<open>encrypt\<close> and \<open>decrypt\<close>), with the randomness \<open>encrypt\<close> draws made an
    argument.
  An exception is a value of type \<open>error\<close>; a function that can raise after it has
  changed the file system returns the file system it reached together with the error.
\<close>

subsection \<open>Strings: the functions of \<open>str\<close> and \<open>posixpath\<close> the script calls\<close>

type_synonym bytes = string

definition sep :: char where
  "sep = CHR ''/''"

text \<open>\<open>s.startswith(t)\<close> and \<open>s.endswith('/')\<close>.\<close>

definition startswith :: "string \<Rightarrow> string \<Rightarrow> bool" where
  "startswith s t = (take (length t) s = t)"

definition endswith_sep :: "string \<Rightarrow> bool" where
  "endswith_sep s = (s \<noteq> [] \<and> last s = sep)"

text \<open>
  \<open>s.replace(old, '')\<close> for a non-empty \<open>old\<close>: one pass from the left, every
  occurrence found is dropped and the scan goes on behind it.
\<close>

function str_remove :: "string \<Rightarrow> string \<Rightarrow> string" where
  "str_remove old [] = []"
| "str_remove old (c # cs) =
     (if old \<noteq> [] \<and> startswith (c # cs) old
      then str_remove old (drop (length old) (c # cs))
      else c # str_remove old cs)"
  by pat_completeness auto
termination
  by (relation "measure (\<lambda>(old, s). length s)") (auto simp: neq_Nil_conv)

definition encrypted_ext :: string where
  "encrypted_ext = ''.encrypted''"

definition cle_key :: string where
  "cle_key = ''cle.key''"

text \<open>
  \<open>posixpath.join(a, b)\<close>, \<open>posixpath.dirname(p)\<close> and \<open>posixpath.basename(p)\<close>.
  \<open>dirname\<close> cuts behind the last slash and strips the slashes at the end of the head,
  unless the head is made of slashes only.
\<close>

definition os_path_join :: "string \<Rightarrow> string \<Rightarrow> string" where
  "os_path_join a b =
     (if b \<noteq> [] \<and> hd b = sep then b
      else if a = [] \<or> endswith_sep a then a @ b
      else a @ [sep] @ b)"

definition rstrip_sep :: "string \<Rightarrow> string" where
  "rstrip_sep s = rev (dropWhile (\<lambda>c. c = sep) (rev s))"

definition path_head :: "string \<Rightarrow> string" where
  "path_head p = rev (dropWhile (\<lambda>c. c \<noteq> sep) (rev p))"

definition os_path_basename :: "string \<Rightarrow> string" where
  "os_path_basename p = rev (takeWhile (\<lambda>c. c \<noteq> sep) (rev p))"

definition os_path_dirname :: "string \<Rightarrow> string" where
  "os_path_dirname p =
     (let head = path_head p
      in if head \<noteq> [] \<and> head \<noteq> replicate (length head) sep
         then rstrip_sep head else head)"

text \<open>
  \<open>p.split('/')\<close>: the components of a path, empty ones included. The list is never
  empty, so the last case is never taken.
\<close>

fun split_sep :: "string \<Rightarrow> string list" where
  "split_sep [] = [[]]"
| "split_sep (c # cs) =
     (if c = sep then [] # split_sep cs
      else case split_sep cs of w # ws \<Rightarrow> (c # w) # ws | [] \<Rightarrow> [[c]])"

subsection \<open>The file system\<close>

type_synonym loc = "string list"

datatype node = File bytes | Dir "string list"

type_synonym fs = "loc \<Rightarrow> node option"

datatype error =
    FileNotFoundError
  | IsADirectoryError
  | FileExistsError
  | SameFileError
  | ValueError
  | TypeError
  | InvalidToken

definition is_dir :: "fs \<Rightarrow> loc \<Rightarrow> bool" where
  "is_dir s l = (case s l of Some (Dir ns) \<Rightarrow> True | _ \<Rightarrow> False)"

definition contents :: "fs \<Rightarrow> loc \<Rightarrow> bytes option" where
  "contents s l = (case s l of Some (File c) \<Rightarrow> Some c | _ \<Rightarrow> None)"

text \<open>
  The names a directory can list: not empty, not \<open>.\<close> or \<open>..\<close>, without a slash.
\<close>

definition is_name :: "string \<Rightarrow> bool" where
  "is_name f = (f \<noteq> [] \<and> f \<noteq> ''.'' \<and> f \<noteq> ''..'' \<and> sep \<notin> set f)"

text \<open>
  Path resolution as the kernel does it: every component is looked up in a directory;
  an empty component and \<open>.\<close> stay, \<open>..\<close> goes to the parent (the root is its own
  parent). The location of the last component need not exist. A component looked up in
  something that is not a directory fails; Python turns that into FileNotFoundError or
  NotADirectoryError, which the model does not tell apart (both are \<open>None\<close> here and
  FileNotFoundError in the operations below).
\<close>

fun walk :: "fs \<Rightarrow> loc \<Rightarrow> string list \<Rightarrow> loc option" where
  "walk s cur [] = Some cur"
| "walk s cur (c # cs) =
     (if \<not> is_dir s cur then None
      else if c = [] \<or> c = ''.'' then walk s cur cs
      else if c = ''..'' then
        (if is_dir s (butlast cur) then walk s (butlast cur) cs else None)
      else walk s (cur @ [c]) cs)"

definition resolve :: "loc \<Rightarrow> fs \<Rightarrow> string \<Rightarrow> loc option" where
  "resolve cwd s p =
     (if p = [] then None
      else walk s (if hd p = sep then [] else cwd) (split_sep p))"

definition os_path_isdir :: "loc \<Rightarrow> fs \<Rightarrow> string \<Rightarrow> bool" where
  "os_path_isdir cwd s p =
     (case resolve cwd s p of None \<Rightarrow> False | Some l \<Rightarrow> is_dir s l)"

definition os_path_isfile :: "loc \<Rightarrow> fs \<Rightarrow> string \<Rightarrow> bool" where
  "os_path_isfile cwd s p =
     (case resolve cwd s p of None \<Rightarrow> False | Some l \<Rightarrow> contents s l \<noteq> None)"

definition os_path_exists :: "loc \<Rightarrow> fs \<Rightarrow> string \<Rightarrow> bool" where
  "os_path_exists cwd s p =
     (case resolve cwd s p of None \<Rightarrow> False | Some l \<Rightarrow> s l \<noteq> None)"

text \<open>\<open>open(p, 'rb').read()\<close>.\<close>

definition read_file :: "loc \<Rightarrow> fs \<Rightarrow> string \<Rightarrow> error + bytes" where
  "read_file cwd s p =
     (case resolve cwd s p of
        None \<Rightarrow> Inl FileNotFoundError
      | Some l \<Rightarrow>
          (case s l of
             None \<Rightarrow> Inl FileNotFoundError
           | Some (Dir ns) \<Rightarrow> Inl IsADirectoryError
           | Some (File c) \<Rightarrow> Inr c))"

text \<open>
  A new node is entered in its parent's listing, at the end; a node that goes is taken
  out of it.
\<close>

definition add_node :: "fs \<Rightarrow> loc \<Rightarrow> node \<Rightarrow> error + fs" where
  "add_node s l n =
     (if l = [] then Inl FileNotFoundError
      else case s (butlast l) of
          Some (Dir ns) \<Rightarrow> Inr (s(butlast l \<mapsto> Dir (ns @ [last l]), l \<mapsto> n))
        | _ \<Rightarrow> Inl FileNotFoundError)"

definition del_node :: "fs \<Rightarrow> loc \<Rightarrow> fs" where
  "del_node s l =
     (case s (butlast l) of
        Some (Dir ns) \<Rightarrow> (s(butlast l \<mapsto> Dir (removeAll (last l) ns)))(l := None)
      | _ \<Rightarrow> s(l := None))"

text \<open>
  \<open>open(p, 'wb').write(c)\<close>: the file is created, or its content replaced. A path that
  ends in a slash behind a name that does not exist in its directory raises
  IsADirectoryError.
\<close>

definition write_file :: "loc \<Rightarrow> fs \<Rightarrow> string \<Rightarrow> bytes \<Rightarrow> error + fs" where
  "write_file cwd s p c =
     (case resolve cwd s p of
        None \<Rightarrow>
          (if endswith_sep p
              \<and> (case resolve cwd s (rstrip_sep p) of None \<Rightarrow> False | Some l \<Rightarrow> s l = None)
           then Inl IsADirectoryError else Inl FileNotFoundError)
      | Some l \<Rightarrow>
          (case s l of
             None \<Rightarrow> add_node s l (File c)
           | Some (Dir ns) \<Rightarrow> Inl IsADirectoryError
           | Some (File old) \<Rightarrow> Inr (s(l \<mapsto> File c))))"

text \<open>\<open>os.remove(p)\<close>.\<close>

definition os_remove :: "loc \<Rightarrow> fs \<Rightarrow> string \<Rightarrow> error + fs" where
  "os_remove cwd s p =
     (case resolve cwd s p of
        None \<Rightarrow> Inl FileNotFoundError
      | Some l \<Rightarrow>
          (case s l of
             None \<Rightarrow> Inl FileNotFoundError
           | Some (Dir ns) \<Rightarrow> Inl IsADirectoryError
           | Some (File c) \<Rightarrow> Inr (del_node s l)))"

text \<open>
  \<open>os.listdir(p)\<close>. For a regular file Python raises NotADirectoryError, which the model
  does not tell apart from FileNotFoundError.
\<close>

definition os_listdir :: "loc \<Rightarrow> fs \<Rightarrow> string \<Rightarrow> error + string list" where
  "os_listdir cwd s p =
     (case resolve cwd s p of
        None \<Rightarrow> Inl FileNotFoundError
      | Some l \<Rightarrow>
          (case s l of
             Some (Dir ns) \<Rightarrow> Inr ns
           | _ \<Rightarrow> Inl FileNotFoundError))"

text \<open>
  \<open>os.makedirs(p)\<close>, by its effect: every directory on the way that is missing is
  created, and the ones created stay when a later step fails. The script calls it only
  for a path that does not exist. A path whose last component is \<open>..\<close> names a directory
  that exists once the ones before it are made, so the last \<open>mkdir\<close> raises
  FileExistsError. A regular file in the way raises FileExistsError or
  NotADirectoryError in Python; the model says FileExistsError for both.
\<close>

fun mkdirs :: "fs \<Rightarrow> loc \<Rightarrow> string list \<Rightarrow> (error + unit) \<times> fs" where
  "mkdirs s cur [] = (Inr (), s)"
| "mkdirs s cur (c # cs) =
     (if \<not> is_dir s cur then (Inl FileNotFoundError, s)
      else if c = [] \<or> c = ''.'' then mkdirs s cur cs
      else if c = ''..'' then
        (if \<not> is_dir s (butlast cur) then (Inl FileNotFoundError, s)
         else if filter (\<lambda>x. x \<noteq> []) cs = [] then (Inl FileExistsError, s)
         else mkdirs s (butlast cur) cs)
      else case s (cur @ [c]) of
          None \<Rightarrow>
            (case add_node s (cur @ [c]) (Dir []) of
               Inl e \<Rightarrow> (Inl e, s)
             | Inr s' \<Rightarrow> mkdirs s' (cur @ [c]) cs)
        | Some (Dir ns) \<Rightarrow> mkdirs s (cur @ [c]) cs
        | Some (File b) \<Rightarrow> (Inl FileExistsError, s))"

definition os_makedirs :: "loc \<Rightarrow> fs \<Rightarrow> string \<Rightarrow> (error + unit) \<times> fs" where
  "os_makedirs cwd s p =
     (if p = [] then (Inl FileNotFoundError, s)
      else mkdirs s (if hd p = sep then [] else cwd) (split_sep p))"

text \<open>
  \<open>shutil.copy(src, dst)\<close>: a destination that is a directory stands for the file of
  the source's name inside it; copying a file onto itself raises SameFileError; the
  source is opened first, then the destination.
\<close>

definition samefile :: "loc \<Rightarrow> fs \<Rightarrow> string \<Rightarrow> string \<Rightarrow> bool" where
  "samefile cwd s p q =
     (case resolve cwd s p of
        None \<Rightarrow> False
      | Some l \<Rightarrow> s l \<noteq> None \<and> resolve cwd s q = Some l)"

definition shutil_copy :: "loc \<Rightarrow> fs \<Rightarrow> string \<Rightarrow> string \<Rightarrow> error + fs" where
  "shutil_copy cwd s src dst =
     (let dst' = (if os_path_isdir cwd s dst
                  then os_path_join dst (os_path_basename src) else dst)
      in if samefile cwd s src dst' then Inl SameFileError
         else case read_file cwd s src of
             Inl e \<Rightarrow> Inl e
           | Inr c \<Rightarrow> write_file cwd s dst' c)"

subsection \<open>The cipher and the run's surroundings\<close>

text \<open>
  What a run gets from outside the script: the process's working directory, and the
  Fernet cipher. \<open>generate_key\<close> is the key \<open>Fernet.generate_key()\<close> draws in this
  run; \<open>key_valid k\<close> says that the constructor \<open>Fernet(k)\<close> accepts \<open>k\<close> (it raises
  ValueError otherwise); \<open>encrypt k r d\<close> is the token \<open>Fernet(k).encrypt(d)\<close> returns
  when it draws the randomness \<open>r\<close>, and \<open>entropy i\<close> is what the \<open>i\<close>-th call of the run
  draws; \<open>decrypt k t\<close> is \<open>Fernet(k).decrypt(t)\<close>, \<open>None\<close> when it raises InvalidToken.
\<close>

record env =
  cwd :: loc
  generate_key :: bytes
  key_valid :: "bytes \<Rightarrow> bool"
  encrypt :: "bytes \<Rightarrow> bytes \<Rightarrow> bytes \<Rightarrow> bytes"
  entropy :: "nat \<Rightarrow> bytes"
  decrypt :: "bytes \<Rightarrow> bytes \<Rightarrow> bytes option"

type_synonym 'a result = "(error + 'a) \<times> fs"

subsection \<open>\<open>sauvegarder_et_chiffrer\<close>\<close>

text \<open>
  Copy one file and encrypt the copy in place (lines 62 to 68 for a file of a directory,
  lines 81 to 87 for a single file: the same statements).
\<close>

definition copier_et_chiffrer :: "env \<Rightarrow> bytes \<Rightarrow> nat \<Rightarrow> string \<Rightarrow> string \<Rightarrow> fs \<Rightarrow> unit result" where
  "copier_et_chiffrer e cle i chemin_fichier_source chemin_fichier_sauvegarde s =
     (case shutil_copy (cwd e) s chemin_fichier_source chemin_fichier_sauvegarde of
        Inl err \<Rightarrow> (Inl err, s)
      | Inr s1 \<Rightarrow>
          (case read_file (cwd e) s1 chemin_fichier_sauvegarde of
             Inl err \<Rightarrow> (Inl err, s1)
           | Inr donnees_fichier \<Rightarrow>
               (case write_file (cwd e) s1 chemin_fichier_sauvegarde
                       (encrypt e cle (entropy e i) donnees_fichier) of
                  Inl err \<Rightarrow> (Inl err, s1)
                | Inr s2 \<Rightarrow> (Inr (), s2))))"

text \<open>The loop over the listing of the source directory (lines 57 to 68).\<close>

fun chiffrer_dossier :: "env \<Rightarrow> bytes \<Rightarrow> string \<Rightarrow> string \<Rightarrow> nat \<Rightarrow> string list \<Rightarrow> fs \<Rightarrow> unit result" where
  "chiffrer_dossier e cle chemin_source chemin_sauvegarde i [] s = (Inr (), s)"
| "chiffrer_dossier e cle chemin_source chemin_sauvegarde i (fichier # reste) s =
     (case copier_et_chiffrer e cle i
             (os_path_join chemin_source fichier)
             (os_path_join chemin_sauvegarde (fichier @ encrypted_ext)) s of
        (Inl err, s1) \<Rightarrow> (Inl err, s1)
      | (Inr u, s1) \<Rightarrow> chiffrer_dossier e cle chemin_source chemin_sauvegarde (Suc i) reste s1)"

text \<open>\<open>if not os.path.exists(p): os.makedirs(p)\<close> (lines 53 and 54, 74 and 75).\<close>

definition creer_dossier :: "env \<Rightarrow> string \<Rightarrow> fs \<Rightarrow> unit result" where
  "creer_dossier e p s =
     (if \<not> os_path_exists (cwd e) s p then os_makedirs (cwd e) s p else (Inr (), s))"

text \<open>
  Lines 48 to 87: the branch on the kind of the source. The value returned is the value
  of the variable \<open>chemin_sauvegarde\<close> behind the branch: the destination directory for
  a directory, the encrypted file for a file, the argument as it came for a source that
  is neither.
\<close>

definition traiter_source :: "env \<Rightarrow> bytes \<Rightarrow> string \<Rightarrow> string option \<Rightarrow> fs \<Rightarrow> (string option) result" where
  "traiter_source e cle chemin_source chemin_sauvegarde s =
     (if os_path_isdir (cwd e) s chemin_source then
        (let dest = (case chemin_sauvegarde of
                       None \<Rightarrow> chemin_source @ ''_chiffre'' | Some d \<Rightarrow> d)
         in case creer_dossier e dest s of
             (Inl err, s1) \<Rightarrow> (Inl err, s1)
           | (Inr u, s1) \<Rightarrow>
               (case os_listdir (cwd e) s1 chemin_source of
                  Inl err \<Rightarrow> (Inl err, s1)
                | Inr fichiers \<Rightarrow>
                    (case chiffrer_dossier e cle chemin_source dest 0 fichiers s1 of
                       (Inl err, s2) \<Rightarrow> (Inl err, s2)
                     | (Inr u, s2) \<Rightarrow> (Inr (Some dest), s2))))
      else if os_path_isfile (cwd e) s chemin_source then
        (case chemin_sauvegarde of
           Some d \<Rightarrow>
             (case creer_dossier e d s of
                (Inl err, s1) \<Rightarrow> (Inl err, s1)
              | (Inr u, s1) \<Rightarrow>
                  (let dest = os_path_join d (os_path_basename chemin_source @ encrypted_ext)
                   in case copier_et_chiffrer e cle 0 chemin_source dest s1 of
                       (Inl err, s2) \<Rightarrow> (Inl err, s2)
                     | (Inr u, s2) \<Rightarrow> (Inr (Some dest), s2)))
         | None \<Rightarrow>
             (let dest = chemin_source @ encrypted_ext
              in case copier_et_chiffrer e cle 0 chemin_source dest s of
                  (Inl err, s2) \<Rightarrow> (Inl err, s2)
                | (Inr u, s2) \<Rightarrow> (Inr (Some dest), s2)))
      else (Inr chemin_sauvegarde, s))"

text \<open>
  Lines 89 to 98: where the key goes. \<open>os.path.dirname(None)\<close> raises TypeError.
\<close>

definition ecrire_cle :: "env \<Rightarrow> string \<Rightarrow> bytes \<Rightarrow> fs \<Rightarrow> unit result" where
  "ecrire_cle e chemin_cle cle s =
     (case write_file (cwd e) s chemin_cle cle of
        Inl err \<Rightarrow> (Inl err, s)
      | Inr s1 \<Rightarrow> (Inr (), s1))"

definition enregistrer_cle :: "env \<Rightarrow> bytes \<Rightarrow> string option \<Rightarrow> string option \<Rightarrow> bytes option \<Rightarrow> fs \<Rightarrow> unit result" where
  "enregistrer_cle e cle chemin_sauvegarde chemin_cle cle_specifiee s =
     (if chemin_cle = None \<and> cle_specifiee = None then
        (case chemin_sauvegarde of
           None \<Rightarrow> (Inl TypeError, s)
         | Some d \<Rightarrow> ecrire_cle e (os_path_join (os_path_dirname d) cle_key) cle s)
      else case chemin_cle of
          Some k \<Rightarrow> ecrire_cle e k cle s
        | None \<Rightarrow> (Inr (), s))"

text \<open>
  The path of the key file of a backup run with no destination argument, if the run
  writes one (lines 89 to 98, for a single file).
\<close>

definition chemin_cle_fichier :: "string \<Rightarrow> string option \<Rightarrow> bytes option \<Rightarrow> string option" where
  "chemin_cle_fichier chemin_source chemin_cle cle_specifiee =
     (case chemin_cle of
        Some k \<Rightarrow> Some k
      | None \<Rightarrow>
          (case cle_specifiee of
             None \<Rightarrow> Some (os_path_join (os_path_dirname (chemin_source @ encrypted_ext)) cle_key)
           | Some c \<Rightarrow> None))"

definition sauvegarder_et_chiffrer :: "env \<Rightarrow> string \<Rightarrow> string option \<Rightarrow> string option \<Rightarrow> bytes option \<Rightarrow> fs \<Rightarrow> unit result" where
  "sauvegarder_et_chiffrer e chemin_source chemin_sauvegarde chemin_cle cle_specifiee s =
     (let cle = (case cle_specifiee of Some k \<Rightarrow> k | None \<Rightarrow> generate_key e)
      in if \<not> key_valid e cle then (Inl ValueError, s)
         else case traiter_source e cle chemin_source chemin_sauvegarde s of
             (Inl err, s1) \<Rightarrow> (Inl err, s1)
           | (Inr dest, s1) \<Rightarrow> enregistrer_cle e cle dest chemin_cle cle_specifiee s1)"

subsection \<open>\<open>dechiffrer_fichiers\<close>\<close>

text \<open>
  Decrypt one file, write the result under the final name and delete the encrypted file
  (lines 129 to 140 for a file of a directory, lines 144 to 155 for a single file).
\<close>

definition dechiffrer_un :: "env \<Rightarrow> bytes \<Rightarrow> string \<Rightarrow> string \<Rightarrow> fs \<Rightarrow> unit result" where
  "dechiffrer_un e cle chemin_fichier_sauvegarde chemin_fichier_final s =
     (case read_file (cwd e) s chemin_fichier_sauvegarde of
        Inl err \<Rightarrow> (Inl err, s)
      | Inr donnees_chiffrees \<Rightarrow>
          (case decrypt e cle donnees_chiffrees of
             None \<Rightarrow> (Inl InvalidToken, s)
           | Some donnees_dechiffrees \<Rightarrow>
               (case write_file (cwd e) s chemin_fichier_final donnees_dechiffrees of
                  Inl err \<Rightarrow> (Inl err, s)
                | Inr s1 \<Rightarrow>
                    (case os_remove (cwd e) s1 chemin_fichier_sauvegarde of
                       Inl err \<Rightarrow> (Inl err, s1)
                     | Inr s2 \<Rightarrow> (Inr (), s2)))))"

text \<open>The loop over the listing of the directory (lines 122 to 140).\<close>

fun dechiffrer_dossier :: "env \<Rightarrow> bytes \<Rightarrow> string \<Rightarrow> string list \<Rightarrow> fs \<Rightarrow> unit result" where
  "dechiffrer_dossier e cle chemin_sauvegarde [] s = (Inr (), s)"
| "dechiffrer_dossier e cle chemin_sauvegarde (fichier # reste) s =
     (if fichier = cle_key then dechiffrer_dossier e cle chemin_sauvegarde reste s
      else case dechiffrer_un e cle
                  (os_path_join chemin_sauvegarde fichier)
                  (os_path_join chemin_sauvegarde (str_remove encrypted_ext fichier)) s of
          (Inl err, s1) \<Rightarrow> (Inl err, s1)
        | (Inr u, s1) \<Rightarrow> dechiffrer_dossier e cle chemin_sauvegarde reste s1)"

definition dechiffrer_fichiers :: "env \<Rightarrow> string \<Rightarrow> string option \<Rightarrow> fs \<Rightarrow> unit result" where
  "dechiffrer_fichiers e chemin_sauvegarde chemin_cle s =
     (let chemin = (case chemin_cle of
                      None \<Rightarrow> os_path_join (os_path_dirname chemin_sauvegarde) cle_key
                    | Some k \<Rightarrow> k)
      in case read_file (cwd e) s chemin of
          Inl err \<Rightarrow> (Inl err, s)
        | Inr cle \<Rightarrow>
            (if \<not> key_valid e cle then (Inl ValueError, s)
             else if os_path_isdir (cwd e) s chemin_sauvegarde then
               (case os_listdir (cwd e) s chemin_sauvegarde of
                  Inl err \<Rightarrow> (Inl err, s)
                | Inr fichiers \<Rightarrow> dechiffrer_dossier e cle chemin_sauvegarde fichiers s)
             else if os_path_isfile (cwd e) s chemin_sauvegarde then
               dechiffrer_un e cle chemin_sauvegarde
                 (str_remove encrypted_ext chemin_sauvegarde) s
             else (Inr (), s)))"

subsection \<open>Concrete inputs\<close>

text \<open>
  A stand-in for the cipher, used only to run the functions on concrete inputs: the token
  is the key, the two bytes of randomness and the data; a token opens under a key when
  it starts with that key. A key is valid when it has two bytes.
\<close>

definition toy_encrypt :: "bytes \<Rightarrow> bytes \<Rightarrow> bytes \<Rightarrow> bytes" where
  "toy_encrypt k r d = k @ r @ d"

definition toy_decrypt :: "bytes \<Rightarrow> bytes \<Rightarrow> bytes option" where
  "toy_decrypt k t =
     (if take (length k) t = k \<and> length k + 2 \<le> length t
      then Some (drop (length k + 2) t) else None)"

definition env0 :: env where
  "env0 = \<lparr>cwd = [''home''], generate_key = ''K1'', key_valid = (\<lambda>k. length k = 2),
            encrypt = toy_encrypt, entropy = (\<lambda>i. ''r0''), decrypt = toy_decrypt\<rparr>"

text \<open>
  The working directory \<open>/home\<close> with the directory \<open>docs\<close> of the specification's
  scenario: \<open>a.txt\<close> holds \<open>hello\<close>, \<open>b.txt\<close> holds \<open>world\<close>.
\<close>

definition fs_docs :: fs where
  "fs_docs = [[] \<mapsto> Dir [''home''], [''home''] \<mapsto> Dir [''docs''],
     [''home'', ''docs''] \<mapsto> Dir [''a.txt'', ''b.txt''],
     [''home'', ''docs'', ''a.txt''] \<mapsto> File ''hello'',
     [''home'', ''docs'', ''b.txt''] \<mapsto> File ''world'']"

text \<open>
  A vault \<open>vault\<close> beside its key \<open>cle.key\<close>; its one entry \<open>notes\<close> is a token made
  under that key, in a file whose name lacks the suffix \<open>.encrypted\<close>.
\<close>

definition fs_notes :: fs where
  "fs_notes = [[] \<mapsto> Dir [''home''], [''home''] \<mapsto> Dir [''vault'', ''cle.key''],
     [''home'', ''cle.key''] \<mapsto> File ''K1'',
     [''home'', ''vault''] \<mapsto> Dir [''notes''],
     [''home'', ''vault'', ''notes''] \<mapsto> File ''K1r0hello'']"


text \<open>
  The directory \<open>docs\<close> with a file \<open>a.txt\<close>, a subdirectory \<open>sub\<close> and a file \<open>b.txt\<close>,
  listed in that order.
\<close>

definition fs_sub :: fs where
  "fs_sub = [[] \<mapsto> Dir [''home''], [''home''] \<mapsto> Dir [''docs''],
     [''home'', ''docs''] \<mapsto> Dir [''a.txt'', ''sub'', ''b.txt''],
     [''home'', ''docs'', ''a.txt''] \<mapsto> File ''hello'',
     [''home'', ''docs'', ''sub''] \<mapsto> Dir [],
     [''home'', ''docs'', ''b.txt''] \<mapsto> File ''world'']"

text \<open>A vault that holds its key: one entry and \<open>cle.key\<close>.\<close>

definition fs_inside :: fs where
  "fs_inside = [[] \<mapsto> Dir [''home''], [''home''] \<mapsto> Dir [''vault''],
     [''home'', ''vault''] \<mapsto> Dir [''cle.key'', ''a.txt.encrypted''],
     [''home'', ''vault'', ''cle.key''] \<mapsto> File ''K1'',
     [''home'', ''vault'', ''a.txt.encrypted''] \<mapsto> File ''K1r0hello'']"

text \<open>The working directory with one file, named \<open>cle.key\<close>.\<close>

definition fs_secret :: fs where
  "fs_secret = [[] \<mapsto> Dir [''home''], [''home''] \<mapsto> Dir [''cle.key''],
     [''home'', ''cle.key''] \<mapsto> File ''secret'']"





section \<open>Properties\<close>

subsection \<open>The file system's operations\<close>

lemma walk_cong: "is_dir s' = is_dir s \<Longrightarrow> walk s' cur cs = walk s cur cs"
  by (induction cs arbitrary: cur) auto

lemma resolve_cong: "is_dir s' = is_dir s \<Longrightarrow> resolve wd s' p = resolve wd s p"
  using walk_cong[of s' s] by (simp add: resolve_def)

lemma walk_mono:
  "(\<And>l. is_dir s l \<Longrightarrow> is_dir s' l) \<Longrightarrow> walk s cur cs = Some l \<Longrightarrow> walk s' cur cs = Some l"
  by (induction cs arbitrary: cur) (auto split: if_splits)

lemma walk_append:
  "walk s cur (xs @ ys) = (case walk s cur xs of None \<Rightarrow> None | Some l \<Rightarrow> walk s l ys)"
  by (induction xs arbitrary: cur) auto

lemma walk_single:
  "walk s c [n] = Some l \<Longrightarrow> \<not> is_dir s l \<Longrightarrow>
     is_dir s c \<and> l = c @ [n] \<and> n \<noteq> [] \<and> n \<noteq> ''.'' \<and> n \<noteq> ''..''"
  by (simp split: if_splits)

lemma walk_snoc:
  "walk s cur (xs @ [n]) = Some l \<Longrightarrow> \<not> is_dir s l \<Longrightarrow>
     \<exists>c. walk s cur xs = Some c \<and> is_dir s c \<and> l = c @ [n]
        \<and> n \<noteq> [] \<and> n \<noteq> ''.'' \<and> n \<noteq> ''..''"
proof -
  assume w: "walk s cur (xs @ [n]) = Some l" and d: "\<not> is_dir s l"
  from w obtain c where c: "walk s cur xs = Some c" and n: "walk s c [n] = Some l"
    by (auto simp: walk_append split: option.splits)
  from walk_single[OF n d] c show ?thesis by blast
qed

lemma contents_Some: "contents s l = Some c \<longleftrightarrow> s l = Some (File c)"
  by (auto simp: contents_def split: option.splits node.splits)

lemma read_file_Inr:
  "read_file wd s p = Inr c \<longleftrightarrow> (\<exists>l. resolve wd s p = Some l \<and> contents s l = Some c)"
  by (auto simp: read_file_def contents_def split: option.splits node.splits)

lemma add_node_File:
  "add_node s l (File c) = Inr s' \<Longrightarrow> s l = None \<Longrightarrow>
     contents s' = (contents s)(l \<mapsto> c) \<and> is_dir s' = is_dir s"
proof -
  assume a: "add_node s l (File c) = Inr s'" and n: "s l = None"
  then obtain ns where ne: "l \<noteq> []" and p: "s (butlast l) = Some (Dir ns)"
    and s': "s' = s(butlast l \<mapsto> Dir (ns @ [last l]), l \<mapsto> File c)"
    by (auto simp: add_node_def split: if_splits option.splits node.splits)
  from ne have d: "butlast l \<noteq> l"
    by (cases l rule: rev_cases) auto
  show ?thesis using n p d
    by (auto simp: s' contents_def is_dir_def fun_eq_iff)
qed

lemma write_file_Inr:
  "write_file wd s p c = Inr s' \<Longrightarrow>
     \<exists>l. resolve wd s p = Some l \<and> \<not> is_dir s l \<and> contents s' = (contents s)(l \<mapsto> c)
        \<and> is_dir s' = is_dir s"
proof -
  assume w: "write_file wd s p c = Inr s'"
  then obtain l where l: "resolve wd s p = Some l"
    by (cases "resolve wd s p") (auto simp: write_file_def split: if_splits)
  show ?thesis
  proof (cases "s l")
    case None
    with w l have "add_node s l (File c) = Inr s'" by (simp add: write_file_def)
    from add_node_File[OF this None] None l show ?thesis by (auto simp: is_dir_def)
  next
    case (Some n)
    show ?thesis
    proof (cases n)
      case (File old)
      with w l Some have s': "s' = s(l \<mapsto> File c)" by (simp add: write_file_def)
      from Some File have "contents s' = (contents s)(l \<mapsto> c) \<and> is_dir s' = is_dir s \<and> \<not> is_dir s l"
        by (auto simp: s' contents_def is_dir_def fun_eq_iff)
      with l show ?thesis by blast
    next
      case (Dir ns)
      with w l Some show ?thesis by (simp add: write_file_def)
    qed
  qed
qed

lemma del_node_File:
  "s l = Some (File c) \<Longrightarrow>
     contents (del_node s l) = (contents s)(l := None) \<and> is_dir (del_node s l) = is_dir s"
proof (cases "s (butlast l)")
  case None
  assume "s l = Some (File c)"
  have e: "del_node s l = s(l := None)"
    using None by (simp add: del_node_def)
  show ?thesis unfolding e using \<open>s l = Some (File c)\<close>
    by (auto simp: contents_def is_dir_def fun_eq_iff)
next
  case (Some n)
  assume f: "s l = Some (File c)"
  show ?thesis
  proof (cases n)
    case (File b)
    have e: "del_node s l = s(l := None)"
      using Some File by (simp add: del_node_def)
    show ?thesis unfolding e using f
      by (auto simp: contents_def is_dir_def fun_eq_iff)
  next
    case (Dir ns)
    with Some f have d: "butlast l \<noteq> l" by auto
    with Some Dir f show ?thesis
      by (auto simp: del_node_def contents_def is_dir_def fun_eq_iff)
  qed
qed

lemma os_remove_Inr:
  "os_remove wd s p = Inr s' \<Longrightarrow>
     \<exists>l. resolve wd s p = Some l \<and> contents s l \<noteq> None \<and> contents s' = (contents s)(l := None)
        \<and> is_dir s' = is_dir s"
proof -
  assume r: "os_remove wd s p = Inr s'"
  then obtain l c where l: "resolve wd s p = Some l" and f: "s l = Some (File c)"
    and s': "s' = del_node s l"
    by (auto simp: os_remove_def split: option.splits node.splits)
  from del_node_File[of s l c] f l show ?thesis
    by (simp add: s' contents_Some)
qed

subsection \<open>Runs on concrete inputs\<close>

text \<open>
  C2. A source that is neither a file nor a directory should make the backup fail with
  a not-found error and write nothing. The function has no branch for such a source:
  with a key path it writes the key there and ends without an error; with no argument
  but the source it ends in the TypeError of \<open>os.path.dirname(None)\<close>.
\<close>

theorem backup_missing_source:
  "\<not> os_path_isdir (cwd env0) fs_docs ''nope''
   \<and> \<not> os_path_isfile (cwd env0) fs_docs ''nope''
   \<and> fst (sauvegarder_et_chiffrer env0 ''nope'' None (Some ''k.key'') None fs_docs) = Inr ()
   \<and> contents (snd (sauvegarder_et_chiffrer env0 ''nope'' None (Some ''k.key'') None fs_docs))
        [''home'', ''k.key''] = Some ''K1''
   \<and> contents fs_docs [''home'', ''k.key''] = None
   \<and> fst (sauvegarder_et_chiffrer env0 ''nope'' None None None fs_docs) = Inl TypeError"
  by code_simp

text \<open>
  C3. Backing up a directory with no other argument should leave the encrypted files
  and the key \<open>cle.key\<close> in the directory \<open><source>_chiffre\<close>. The encrypted files are
  there, one per file of the source, but the key is written to
  \<open>dirname(<source>_chiffre)/cle.key\<close>, beside the destination directory and not in it.
\<close>

theorem backup_directory_key_location:
  "os_path_isdir (cwd env0) fs_docs ''docs''
   \<and> fst (sauvegarder_et_chiffrer env0 ''docs'' None None None fs_docs) = Inr ()
   \<and> snd (sauvegarder_et_chiffrer env0 ''docs'' None None None fs_docs) [''home'', ''docs_chiffre'']
       = Some (Dir [''a.txt.encrypted'', ''b.txt.encrypted''])
   \<and> snd (sauvegarder_et_chiffrer env0 ''docs'' None None None fs_docs)
        [''home'', ''docs_chiffre'', ''cle.key''] = None
   \<and> snd (sauvegarder_et_chiffrer env0 ''docs'' None None None fs_docs)
        [''home'', ''cle.key''] = Some (File ''K1'')"
  by code_simp

text \<open>
  C4. Every entry the restore handles should end either as the untouched encrypted file
  or as the decrypted file with the encrypted one removed, never with neither. An entry
  whose name does not contain \<open>.encrypted\<close> keeps its name: the decrypted bytes are
  written over the encrypted file, and that same file is then removed. The run ends
  without an error and the entry is gone.
\<close>

theorem restore_unsuffixed_entry_lost:
  "read_file (cwd env0) fs_notes ''vault/notes'' = Inr ''K1r0hello''
   \<and> decrypt env0 ''K1'' ''K1r0hello'' = Some ''hello''
   \<and> fst (dechiffrer_fichiers env0 ''vault'' None fs_notes) = Inr ()
   \<and> snd (dechiffrer_fichiers env0 ''vault'' None fs_notes) [''home'', ''vault''] = Some (Dir [])
   \<and> snd (dechiffrer_fichiers env0 ''vault'' None fs_notes) [''home'', ''vault'', ''notes''] = None"
  by code_simp

subsection \<open>Removing the suffix\<close>








subsection \<open>Paths\<close>

lemma split_sep_ne: "split_sep p \<noteq> []"
  by (induction p) (auto split: list.splits)

lemma split_sep_nosep: "sep \<notin> set t \<Longrightarrow> split_sep t = [t]"
  by (induction t) auto

lemma split_sep_append_sep: "split_sep (a @ sep # b) = split_sep a @ split_sep b"
  by (induction a) (auto simp: split_sep_ne split: list.splits)

lemma split_sep_append_nosep:
  "sep \<notin> set t \<Longrightarrow> split_sep (p @ t) = butlast (split_sep p) @ [last (split_sep p) @ t]"
proof (induction p)
  case Nil
  then show ?case by (simp add: split_sep_nosep)
next
  case (Cons c p)
  then show ?case
    by (auto simp: split_sep_ne split: list.splits)
qed


lemma resolve_file_last:
  assumes r: "resolve wd s p = Some l" and f: "\<not> is_dir s l"
  shows "\<exists>c. l = c @ [last (split_sep p)] \<and> is_dir s c
           \<and> walk s (if hd p = sep then [] else wd) (butlast (split_sep p)) = Some c
           \<and> last (split_sep p) \<noteq> [] \<and> last (split_sep p) \<noteq> ''.''
           \<and> last (split_sep p) \<noteq> ''..''"
proof -
  let ?st = "if hd p = sep then [] else wd"
  from r have w: "walk s ?st (split_sep p) = Some l"
    by (simp add: resolve_def split: if_splits)
  have "split_sep p = butlast (split_sep p) @ [last (split_sep p)]"
    using split_sep_ne[of p] by simp
  with w have "walk s ?st (butlast (split_sep p) @ [last (split_sep p)]) = Some l" by simp
  from walk_snoc[OF this f] show ?thesis by blast
qed

lemma resolve_Some_ne: "resolve wd s p = Some l \<Longrightarrow> p \<noteq> []"
  by (auto simp: resolve_def)

lemma resolve_append_suffix:
  assumes r: "resolve wd s p = Some l" and f: "\<not> is_dir s l" and t: "sep \<notin> set t"
  shows "resolve wd s (p @ t) = Some (butlast l @ [last l @ t])"
proof -
  let ?st = "if hd p = sep then [] else wd"
  let ?n = "last (split_sep p)"
  from resolve_file_last[OF r f] obtain c where l: "l = c @ [?n]" and c: "is_dir s c"
    and w: "walk s ?st (butlast (split_sep p)) = Some c"
    and n: "?n \<noteq> []" "?n \<noteq> ''.''" "?n \<noteq> ''..''" by blast
  from r have p: "p \<noteq> []" by (rule resolve_Some_ne)
  from n have nt: "?n @ t \<noteq> []" "?n @ t \<noteq> ''.''" "?n @ t \<noteq> ''..''"
    by (auto simp: append_eq_Cons_conv)
  have "walk s c [?n @ t] = Some (c @ [?n @ t])"
    using c nt by simp
  with w have "walk s ?st (butlast (split_sep p) @ [?n @ t]) = Some (c @ [?n @ t])"
    by (simp add: walk_append)
  with p t l show ?thesis
    by (simp add: resolve_def split_sep_append_nosep)
qed

lemma resolve_join:
  assumes r: "resolve wd s p = Some d" and d: "is_dir s d" and f: "sep \<notin> set f"
  shows "resolve wd s (os_path_join p f) = walk s d [f]"
proof -
  let ?st = "if hd p = sep then [] else wd"
  from r have p: "p \<noteq> []" by (rule resolve_Some_ne)
  from r p have w: "walk s ?st (split_sep p) = Some d" by (simp add: resolve_def)
  from f have h: "\<not> (f \<noteq> [] \<and> hd f = sep)" by (cases f) auto
  show ?thesis
  proof (cases "endswith_sep p")
    case True
    then obtain p' where p': "p = p' @ [sep]"
      by (metis endswith_sep_def append_butlast_last_id)
    then have sp: "split_sep p = split_sep p' @ [[]]"
      using split_sep_append_sep[of p' "[]"] by simp
    with w obtain c where c: "walk s ?st (split_sep p') = Some c" and c2: "walk s c [[]] = Some d"
      by (auto simp: walk_append split: option.splits)
    from c2 have "c = d" by (simp split: if_splits)
    with c have w': "walk s ?st (split_sep p') = Some d" by simp
    have j: "os_path_join p f = p' @ sep # f"
      using True h p' by (simp add: os_path_join_def)
    have "split_sep (p' @ sep # f) = split_sep p' @ [f]"
      using f by (simp add: split_sep_append_sep split_sep_nosep)
    moreover have "hd (p' @ sep # f) = hd p" using p' by (cases p') auto
    ultimately show ?thesis using w' j
      by (simp add: resolve_def walk_append)
  next
    case False
    with h p have j: "os_path_join p f = p @ sep # f" by (simp add: os_path_join_def)
    have "split_sep (p @ sep # f) = split_sep p @ [f]"
      using f by (simp add: split_sep_append_sep split_sep_nosep)
    moreover have "hd (p @ sep # f) = hd p" using p by (cases p) auto
    ultimately show ?thesis using w j
      by (simp add: resolve_def walk_append)
  qed
qed


subsection \<open>Effects of the steps\<close>

lemma os_path_isdir_iff:
  "os_path_isdir wd s p \<longleftrightarrow> (\<exists>l. resolve wd s p = Some l \<and> is_dir s l)"
  by (auto simp: os_path_isdir_def split: option.splits)

lemma os_path_isfile_iff:
  "os_path_isfile wd s p \<longleftrightarrow> (\<exists>l c. resolve wd s p = Some l \<and> contents s l = Some c)"
  by (auto simp: os_path_isfile_def split: option.splits)

lemma read_file_dir:
  "resolve wd s p = Some l \<Longrightarrow> is_dir s l \<Longrightarrow> read_file wd s p = Inl IsADirectoryError"
  by (auto simp: read_file_def is_dir_def split: option.splits node.splits)

lemma shutil_copy_Inr:
  assumes "shutil_copy wd s src dst = Inr s'"
  shows "\<exists>c l. read_file wd s src = Inr c
           \<and> resolve wd s (if os_path_isdir wd s dst
                           then os_path_join dst (os_path_basename src) else dst) = Some l
           \<and> \<not> is_dir s l \<and> contents s' = (contents s)(l \<mapsto> c) \<and> is_dir s' = is_dir s"
proof -
  let ?d = "if os_path_isdir wd s dst then os_path_join dst (os_path_basename src) else dst"
  from assms obtain c where c: "read_file wd s src = Inr c" and w: "write_file wd s ?d c = Inr s'"
    by (auto simp: shutil_copy_def Let_def split: if_splits sum.splits)
  from write_file_Inr[OF w] c show ?thesis by auto
qed

lemma shutil_copy_dir:
  assumes "os_path_isdir wd s src"
  shows "shutil_copy wd s src dst = Inl SameFileError
       \<or> shutil_copy wd s src dst = Inl IsADirectoryError"
proof -
  from assms obtain l where "resolve wd s src = Some l" "is_dir s l"
    by (auto simp: os_path_isdir_iff)
  then have "read_file wd s src = Inl IsADirectoryError" by (rule read_file_dir)
  then show ?thesis by (simp add: shutil_copy_def Let_def)
qed

lemma copier_et_chiffrer_is_dir:
  assumes "copier_et_chiffrer e cle i src dst s = (r, s')"
  shows "is_dir s' = is_dir s"
proof (cases "shutil_copy (cwd e) s src dst")
  case (Inl err)
  with assms show ?thesis by (simp add: copier_et_chiffrer_def)
next
  case (Inr s1)
  from shutil_copy_Inr[OF Inr] have d1: "is_dir s1 = is_dir s" by blast
  show ?thesis
  proof (cases "read_file (cwd e) s1 dst")
    case (Inl err)
    with assms Inr d1 show ?thesis by (simp add: copier_et_chiffrer_def)
  next
    case (Inr c)
    note rd = this
    show ?thesis
    proof (cases "write_file (cwd e) s1 dst (encrypt e cle (entropy e i) c)")
      case (Inl err)
      with assms \<open>shutil_copy (cwd e) s src dst = Inr s1\<close> rd d1 show ?thesis
        by (simp add: copier_et_chiffrer_def)
    next
      case (Inr s2)
      from write_file_Inr[OF Inr] have "is_dir s2 = is_dir s1" by blast
      with assms \<open>shutil_copy (cwd e) s src dst = Inr s1\<close> rd Inr d1 show ?thesis
        by (simp add: copier_et_chiffrer_def)
    qed
  qed
qed

lemma copier_et_chiffrer_Inr:
  assumes "copier_et_chiffrer e cle i src dst s = (Inr u, s')"
  shows "\<exists>c l. read_file (cwd e) s src = Inr c \<and> resolve (cwd e) s dst = Some l
           \<and> \<not> is_dir s l
           \<and> contents s' = (contents s)(l \<mapsto> encrypt e cle (entropy e i) c)
           \<and> is_dir s' = is_dir s"
proof -
  from assms obtain s1 d where cp: "shutil_copy (cwd e) s src dst = Inr s1"
    and rd: "read_file (cwd e) s1 dst = Inr d"
    and wr: "write_file (cwd e) s1 dst (encrypt e cle (entropy e i) d) = Inr s'"
    by (auto simp: copier_et_chiffrer_def split: sum.splits)
  let ?d = "if os_path_isdir (cwd e) s dst then os_path_join dst (os_path_basename src) else dst"
  from shutil_copy_Inr[OF cp] obtain c l where c: "read_file (cwd e) s src = Inr c"
    and l: "resolve (cwd e) s ?d = Some l" and nd: "\<not> is_dir s l"
    and c1: "contents s1 = (contents s)(l \<mapsto> c)" and d1: "is_dir s1 = is_dir s" by blast
  have r1: "resolve (cwd e) s1 = resolve (cwd e) s"
    using resolve_cong[OF d1] by (simp add: fun_eq_iff)
  have notdir: "\<not> os_path_isdir (cwd e) s dst"
  proof
    assume "os_path_isdir (cwd e) s dst"
    then obtain ld where "resolve (cwd e) s dst = Some ld" "is_dir s ld"
      by (auto simp: os_path_isdir_iff)
    then have "read_file (cwd e) s1 dst = Inl IsADirectoryError"
      using r1 d1 by (intro read_file_dir) auto
    with rd show False by simp
  qed
  with l have l': "resolve (cwd e) s dst = Some l" by simp
  from rd l' r1 c1 have "d = c" by (auto simp: read_file_Inr)
  from write_file_Inr[OF wr] l' r1 have
    "contents s' = (contents s1)(l \<mapsto> encrypt e cle (entropy e i) d)" "is_dir s' = is_dir s1"
    by auto
  with c l' nd c1 d1 \<open>d = c\<close> show ?thesis by auto
qed

lemma ecrire_cle_Inr:
  assumes "ecrire_cle e kp cle s = (Inr u, s')"
  shows "\<exists>l. resolve (cwd e) s kp = Some l \<and> \<not> is_dir s l
           \<and> contents s' = (contents s)(l \<mapsto> cle) \<and> is_dir s' = is_dir s"
proof -
  from assms have "write_file (cwd e) s kp cle = Inr s'"
    by (auto simp: ecrire_cle_def split: sum.splits)
  from write_file_Inr[OF this] show ?thesis .
qed

subsection \<open>Where the key goes\<close>

lemma ecrire_cle_read:
  assumes "ecrire_cle e p c s = (Inr u, s')"
  shows "read_file (cwd e) s' p = Inr c"
proof -
  from ecrire_cle_Inr[OF assms] obtain l where l: "resolve (cwd e) s p = Some l"
    and c: "contents s' = (contents s)(l \<mapsto> c)" and d: "is_dir s' = is_dir s" by blast
  from resolve_cong[OF d] l have "resolve (cwd e) s' p = Some l" by simp
  with c show ?thesis by (simp add: read_file_Inr)
qed

lemma traiter_source_dest:
  assumes "traiter_source e cle src dst s = (Inr dest, s1)"
    and "os_path_isdir (cwd e) s src \<or> os_path_isfile (cwd e) s src"
  shows "dest \<noteq> None"
  using assms
  by (auto simp: traiter_source_def Let_def split: if_splits option.splits sum.splits prod.splits)

text \<open>
  C7. When the copying and encrypting has ended without an error, the key is persisted
  by exactly one of three cases. With a key path, the key is written there. With no key
  path and no key given, the generated key is written to \<open>cle.key\<close> in
  \<open>dirname(chemin_sauvegarde)\<close>, where \<open>chemin_sauvegarde\<close> is the destination as the
  copying left it (it is set whenever the source is a file or a directory). With a key
  given and no key path, nothing is written: the run ends with the file system the
  copying left. A key file that was written holds the key.
\<close>

theorem key_persistence_cases:
  assumes "key_valid e cle"
    and "cle = (case cle_specifiee of Some k \<Rightarrow> k | None \<Rightarrow> generate_key e)"
    and "traiter_source e cle src dst s = (Inr dest, s1)"
  shows "(chemin_cle = Some kp \<longrightarrow>
            sauvegarder_et_chiffrer e src dst chemin_cle cle_specifiee s
              = ecrire_cle e kp cle s1)
       \<and> (chemin_cle = None \<and> cle_specifiee = None \<longrightarrow>
            (case dest of
               Some d \<Rightarrow> sauvegarder_et_chiffrer e src dst chemin_cle cle_specifiee s
                  = ecrire_cle e (os_path_join (os_path_dirname d) cle_key) (generate_key e) s1
             | None \<Rightarrow> sauvegarder_et_chiffrer e src dst chemin_cle cle_specifiee s
                  = (Inl TypeError, s1)))
       \<and> (chemin_cle = None \<and> cle_specifiee \<noteq> None \<longrightarrow>
            sauvegarder_et_chiffrer e src dst chemin_cle cle_specifiee s = (Inr (), s1))
       \<and> (os_path_isdir (cwd e) s src \<or> os_path_isfile (cwd e) s src \<longrightarrow> dest \<noteq> None)
       \<and> (\<forall>p s'. ecrire_cle e p cle s1 = (Inr (), s') \<longrightarrow> read_file (cwd e) s' p = Inr cle)"
proof -
  have run: "sauvegarder_et_chiffrer e src dst chemin_cle cle_specifiee s
      = enregistrer_cle e cle dest chemin_cle cle_specifiee s1"
    using assms by (simp add: sauvegarder_et_chiffrer_def Let_def)
  have 1: "chemin_cle = Some kp \<longrightarrow>
            sauvegarder_et_chiffrer e src dst chemin_cle cle_specifiee s
              = ecrire_cle e kp cle s1"
    using run by (auto simp: enregistrer_cle_def)
  have 2: "chemin_cle = None \<and> cle_specifiee = None \<longrightarrow>
            (case dest of
               Some d \<Rightarrow> sauvegarder_et_chiffrer e src dst chemin_cle cle_specifiee s
                  = ecrire_cle e (os_path_join (os_path_dirname d) cle_key) (generate_key e) s1
             | None \<Rightarrow> sauvegarder_et_chiffrer e src dst chemin_cle cle_specifiee s
                  = (Inl TypeError, s1))"
    using assms(2) run by (auto simp: enregistrer_cle_def split: option.splits)
  have 3: "chemin_cle = None \<and> cle_specifiee \<noteq> None \<longrightarrow>
            sauvegarder_et_chiffrer e src dst chemin_cle cle_specifiee s = (Inr (), s1)"
    using run by (auto simp: enregistrer_cle_def)
  have 4: "os_path_isdir (cwd e) s src \<or> os_path_isfile (cwd e) s src \<longrightarrow> dest \<noteq> None"
    using traiter_source_dest[OF assms(3)] by blast
  have 5: "\<forall>p s'. ecrire_cle e p cle s1 = (Inr (), s') \<longrightarrow> read_file (cwd e) s' p = Inr cle"
    using ecrire_cle_read by blast
  from 1 2 3 4 5 show ?thesis by blast
qed

theorem key_persistence_cases_witness:
  "key_valid env0 ''K1''
   \<and> fst (traiter_source env0 ''K1'' ''docs/a.txt'' None fs_docs) = Inr (Some ''docs/a.txt.encrypted'')
   \<and> os_path_isfile (cwd env0) fs_docs ''docs/a.txt''
   \<and> sauvegarder_et_chiffrer env0 ''docs/a.txt'' None (Some ''k.key'') None fs_docs
       = ecrire_cle env0 ''k.key'' ''K1'' (snd (traiter_source env0 ''K1'' ''docs/a.txt'' None fs_docs))
   \<and> sauvegarder_et_chiffrer env0 ''docs/a.txt'' None None None fs_docs
       = ecrire_cle env0 ''docs/cle.key'' ''K1''
           (snd (traiter_source env0 ''K1'' ''docs/a.txt'' None fs_docs))
   \<and> sauvegarder_et_chiffrer env0 ''docs/a.txt'' None None (Some ''K1'') fs_docs
       = (Inr (), snd (traiter_source env0 ''K1'' ''docs/a.txt'' None fs_docs))
   \<and> read_file (cwd env0) (snd (sauvegarder_et_chiffrer env0 ''docs/a.txt'' None None None fs_docs))
        ''docs/cle.key'' = Inr ''K1''"
proof -
  let ?s1 = "snd (traiter_source env0 ''K1'' ''docs/a.txt'' None fs_docs)"
  have v: "key_valid env0 ''K1''" by (simp add: env0_def)
  have f: "fst (traiter_source env0 ''K1'' ''docs/a.txt'' None fs_docs)
      = Inr (Some ''docs/a.txt.encrypted'')" by code_simp
  then have t: "traiter_source env0 ''K1'' ''docs/a.txt'' None fs_docs
      = (Inr (Some ''docs/a.txt.encrypted''), ?s1)" by (simp add: prod_eq_iff)
  have i: "os_path_isfile (cwd env0) fs_docs ''docs/a.txt''" by code_simp
  have g: "generate_key env0 = ''K1''" by (simp add: env0_def)
  have p: "os_path_join (os_path_dirname ''docs/a.txt.encrypted'') cle_key = ''docs/cle.key''"
    by code_simp
  have k1: "''K1'' = (case None of Some k \<Rightarrow> k | None \<Rightarrow> generate_key env0)"
    by (simp add: g)
  have k2: "''K1'' = (case Some ''K1'' of Some k \<Rightarrow> k | None \<Rightarrow> generate_key env0)"
    by simp
  have a: "sauvegarder_et_chiffrer env0 ''docs/a.txt'' None (Some ''k.key'') None fs_docs
       = ecrire_cle env0 ''k.key'' ''K1'' ?s1"
    using key_persistence_cases[OF v k1 t, of "Some ''k.key''" "''k.key''"] by simp
  have b: "sauvegarder_et_chiffrer env0 ''docs/a.txt'' None None None fs_docs
       = ecrire_cle env0 ''docs/cle.key'' ''K1'' ?s1"
    using key_persistence_cases[OF v k1 t, of None] by (simp add: g p)
  have c: "sauvegarder_et_chiffrer env0 ''docs/a.txt'' None None (Some ''K1'') fs_docs
       = (Inr (), ?s1)"
    using key_persistence_cases[OF v k2 t, of None] by simp
  have d: "fst (sauvegarder_et_chiffrer env0 ''docs/a.txt'' None None None fs_docs) = Inr ()"
    by code_simp
  then have "ecrire_cle env0 ''docs/cle.key'' ''K1'' ?s1
      = (Inr (), snd (sauvegarder_et_chiffrer env0 ''docs/a.txt'' None None None fs_docs))"
    by (simp add: b prod_eq_iff)
  with key_persistence_cases[OF v k1 t, of None]
  have r: "read_file (cwd env0) (snd (sauvegarder_et_chiffrer env0 ''docs/a.txt'' None None None fs_docs))
        ''docs/cle.key'' = Inr ''K1''" by blast
  from v f i a b c r show ?thesis by blast
qed

subsection \<open>A rejected token\<close>






subsection \<open>The loops\<close>

lemma chiffrer_dossier_append:
  "chiffrer_dossier e cle src dst i (xs @ ys) s =
     (case chiffrer_dossier e cle src dst i xs s of
        (Inl err, s1) \<Rightarrow> (Inl err, s1)
      | (Inr u, s1) \<Rightarrow> chiffrer_dossier e cle src dst (i + length xs) ys s1)"
  by (induction xs arbitrary: s i) (auto split: prod.splits sum.splits)

lemma chiffrer_dossier_is_dir:
  "chiffrer_dossier e cle src dst i xs s = (r, s') \<Longrightarrow> is_dir s' = is_dir s"
proof (induction xs arbitrary: s i)
  case Nil
  then show ?case by simp
next
  case (Cons f xs)
  obtain r1 s1 where c: "copier_et_chiffrer e cle i (os_path_join src f)
      (os_path_join dst (f @ encrypted_ext)) s = (r1, s1)" by (cases "copier_et_chiffrer e cle i (os_path_join src f)
      (os_path_join dst (f @ encrypted_ext)) s") auto
  from copier_et_chiffrer_is_dir[OF c] have d: "is_dir s1 = is_dir s" .
  show ?case
  proof (cases r1)
    case (Inl err)
    with Cons.prems c d show ?thesis by simp
  next
    case (Inr u)
    with Cons.prems c have "chiffrer_dossier e cle src dst (Suc i) xs s1 = (r, s')" by simp
    from Cons.IH[OF this] d show ?thesis by simp
  qed
qed

lemma copier_et_chiffrer_dir:
  assumes "os_path_isdir (cwd e) s src"
  shows "copier_et_chiffrer e cle i src dst s = (Inl SameFileError, s)
       \<or> copier_et_chiffrer e cle i src dst s = (Inl IsADirectoryError, s)"
  using shutil_copy_dir[OF assms, of dst] by (auto simp: copier_et_chiffrer_def)

lemma mkdirs_mono:
  "mkdirs s cur cs = (r, s') \<Longrightarrow> is_dir s l \<Longrightarrow> is_dir s' l"
proof (induction s cur cs arbitrary: r s' rule: mkdirs.induct)
  case (1 s cur)
  then show ?case by simp
next
  case (2 s cur c cs)
  show ?case
  proof (cases "\<not> is_dir s cur")
    case True
    with 2 show ?thesis by simp
  next
    case d: False
    show ?thesis
    proof (cases "c = [] \<or> c = ''.''")
      case True
      with 2 d show ?thesis by simp
    next
      case n1: False
      show ?thesis
      proof (cases "c = ''..''")
        case True
        with 2(2,5,6) d n1 show ?thesis by (simp split: if_splits)
      next
        case n2: False
        show ?thesis
        proof (cases "s (cur @ [c])")
          case None
          show ?thesis
          proof (cases "add_node s (cur @ [c]) (Dir [])")
            case (Inl err)
            with 2(5,6) d n1 n2 None show ?thesis by simp
          next
            case (Inr s1)
            from Inr None d have m: "is_dir s1 l"
              using 2(6)
              by (auto simp: add_node_def is_dir_def split: option.splits node.splits if_splits)
            from 2(5) d n1 n2 None Inr have "mkdirs s1 (cur @ [c]) cs = (r, s')" by simp
            from 2(3)[OF d n1 n2 None Inr this m] show ?thesis .
          qed
        next
          case (Some n)
          show ?thesis
          proof (cases n)
            case (File b)
            with 2(5,6) d n1 n2 Some show ?thesis by simp
          next
            case (Dir ns)
            with 2(5) d n1 n2 Some have "mkdirs s (cur @ [c]) cs = (r, s')" by simp
            from 2(4)[OF d n1 n2 Some Dir this 2(6)] show ?thesis .
          qed
        qed
      qed
    qed
  qed
qed

lemma creer_dossier_mono:
  "creer_dossier e p s = (r, s') \<Longrightarrow> is_dir s l \<Longrightarrow> is_dir s' l"
  using mkdirs_mono
  by (auto simp: creer_dossier_def os_makedirs_def split: if_splits)

lemma os_path_isdir_mono:
  assumes "\<And>l. is_dir s l \<Longrightarrow> is_dir s' l" and "os_path_isdir wd s p"
  shows "os_path_isdir wd s' p"
proof -
  from assms(2) obtain l where l: "resolve wd s p = Some l" and d: "is_dir s l"
    by (auto simp: os_path_isdir_iff)
  from l have p: "p \<noteq> []" by (rule resolve_Some_ne)
  with l have "walk s (if hd p = sep then [] else wd) (split_sep p) = Some l"
    by (simp add: resolve_def)
  from walk_mono[OF assms(1) this] p have "resolve wd s' p = Some l"
    by (simp add: resolve_def)
  with assms(1)[OF d] show ?thesis by (auto simp: os_path_isdir_iff)
qed

subsection \<open>A subdirectory in the source\<close>

text \<open>
  C10. The backup of a directory copies every name of its listing as a regular file. At
  the first name that is a directory the copy raises (IsADirectoryError; SameFileError
  when the destination of the copy is that same directory) and the run ends there: the
  files listed before it have been copied and encrypted, the names behind it are not
  looked at, no key is written, and the subdirectory is neither skipped nor entered. A
  run over a directory with a subdirectory never ends without an error.
\<close>

theorem subdirectory_aborts_backup:
  assumes "key_valid e cle"
    and "cle = (case cle_specifiee of Some k \<Rightarrow> k | None \<Rightarrow> generate_key e)"
    and "os_path_isdir (cwd e) s chemin_source"
    and "dest = (case chemin_sauvegarde of
                   None \<Rightarrow> chemin_source @ ''_chiffre'' | Some d \<Rightarrow> d)"
    and "creer_dossier e dest s = (Inr (), s0)"
    and "os_listdir (cwd e) s0 chemin_source = Inr (avant @ fichier # apres)"
    and "os_path_isdir (cwd e) s (os_path_join chemin_source fichier)"
  shows "fst (sauvegarder_et_chiffrer e chemin_source chemin_sauvegarde chemin_cle cle_specifiee s)
           \<noteq> Inr ()
       \<and> (\<forall>s1. chiffrer_dossier e cle chemin_source dest 0 avant s0 = (Inr (), s1) \<longrightarrow>
            sauvegarder_et_chiffrer e chemin_source chemin_sauvegarde chemin_cle cle_specifiee s
              = (Inl IsADirectoryError, s1)
          \<or> sauvegarder_et_chiffrer e chemin_source chemin_sauvegarde chemin_cle cle_specifiee s
              = (Inl SameFileError, s1))"
proof -
  let ?run = "sauvegarder_et_chiffrer e chemin_source chemin_sauvegarde chemin_cle cle_specifiee s"
  let ?loop = "chiffrer_dossier e cle chemin_source dest 0 (avant @ fichier # apres) s0"
  obtain r1 s1 where a: "chiffrer_dossier e cle chemin_source dest 0 avant s0 = (r1, s1)"
    by (cases "chiffrer_dossier e cle chemin_source dest 0 avant s0") auto
  have t: "traiter_source e cle chemin_source chemin_sauvegarde s =
      (case ?loop of (Inl err, s2) \<Rightarrow> (Inl err, s2) | (Inr u, s2) \<Rightarrow> (Inr (Some dest), s2))"
    using assms(3,5,6) by (simp add: traiter_source_def Let_def assms(4)[symmetric])
  have run: "?run = (case traiter_source e cle chemin_source chemin_sauvegarde s of
       (Inl err, s1) \<Rightarrow> (Inl err, s1)
     | (Inr d, s1) \<Rightarrow> enregistrer_cle e cle d chemin_cle cle_specifiee s1)"
    using assms(1) by (simp add: sauvegarder_et_chiffrer_def Let_def assms(2)[symmetric])
  show ?thesis
  proof (cases r1)
    case (Inl err)
    with a have "?loop = (Inl err, s1)" by (simp add: chiffrer_dossier_append)
    with t run have "?run = (Inl err, s1)" by simp
    with a Inl show ?thesis by simp
  next
    case (Inr u)
    from chiffrer_dossier_is_dir[OF a] have d1: "is_dir s1 = is_dir s0" .
    have "os_path_isdir (cwd e) s0 (os_path_join chemin_source fichier)"
      using creer_dossier_mono[OF assms(5)] assms(7) by (rule os_path_isdir_mono)
    then have "os_path_isdir (cwd e) s1 (os_path_join chemin_source fichier)"
      using d1 by (intro os_path_isdir_mono[of s0 s1]) auto
    from copier_et_chiffrer_dir[OF this, of cle "0 + length avant"
        "os_path_join dest (fichier @ encrypted_ext)"]
    have "?loop = (Inl SameFileError, s1) \<or> ?loop = (Inl IsADirectoryError, s1)"
      using a Inr by (auto simp: chiffrer_dossier_append)
    with t run have "?run = (Inl SameFileError, s1) \<or> ?run = (Inl IsADirectoryError, s1)"
      by auto
    with a Inr show ?thesis by auto
  qed
qed

theorem subdirectory_aborts_backup_witness:
  "os_path_isdir (cwd env0) fs_sub ''docs''
   \<and> os_path_isdir (cwd env0) fs_sub (os_path_join ''docs'' ''sub'')
   \<and> fst (sauvegarder_et_chiffrer env0 ''docs'' None None None fs_sub) = Inl IsADirectoryError
   \<and> snd (sauvegarder_et_chiffrer env0 ''docs'' None None None fs_sub) [''home'', ''docs_chiffre'']
       = Some (Dir [''a.txt.encrypted''])
   \<and> snd (sauvegarder_et_chiffrer env0 ''docs'' None None None fs_sub) [''home'', ''cle.key'']
       = None"
proof -
  let ?s0 = "snd (creer_dossier env0 ''docs_chiffre'' fs_sub)"
  let ?s1 = "snd (chiffrer_dossier env0 ''K1'' ''docs'' ''docs_chiffre'' 0 [''a.txt''] ?s0)"
  have 1: "key_valid env0 ''K1''" by (simp add: env0_def)
  have 2: "''K1'' = (case None of Some k \<Rightarrow> k | None \<Rightarrow> generate_key env0)"
    by (simp add: env0_def)
  have 3: "os_path_isdir (cwd env0) fs_sub ''docs''" by code_simp
  have 4: "''docs_chiffre'' = (case None of None \<Rightarrow> ''docs'' @ ''_chiffre'' | Some d \<Rightarrow> d)"
    by simp
  have "fst (creer_dossier env0 ''docs_chiffre'' fs_sub) = Inr ()" by code_simp
  then have 5: "creer_dossier env0 ''docs_chiffre'' fs_sub = (Inr (), ?s0)"
    by (simp add: prod_eq_iff)
  have 6: "os_listdir (cwd env0) ?s0 ''docs'' = Inr ([''a.txt''] @ ''sub'' # [''b.txt''])"
    by code_simp
  have 7: "os_path_isdir (cwd env0) fs_sub (os_path_join ''docs'' ''sub'')" by code_simp
  have "fst (chiffrer_dossier env0 ''K1'' ''docs'' ''docs_chiffre'' 0 [''a.txt''] ?s0) = Inr ()"
    by code_simp
  then have 8: "chiffrer_dossier env0 ''K1'' ''docs'' ''docs_chiffre'' 0 [''a.txt''] ?s0
      = (Inr (), ?s1)" by (simp add: prod_eq_iff)
  from subdirectory_aborts_backup[OF 1 2 3 4 5 6 7, of None] 8
  have r: "sauvegarder_et_chiffrer env0 ''docs'' None None None fs_sub = (Inl IsADirectoryError, ?s1)
         \<or> sauvegarder_et_chiffrer env0 ''docs'' None None None fs_sub = (Inl SameFileError, ?s1)"
    by blast
  have a: "?s1 [''home'', ''docs_chiffre''] = Some (Dir [''a.txt.encrypted''])" by code_simp
  have b: "?s1 [''home'', ''cle.key''] = None" by code_simp
  have c: "fst (sauvegarder_et_chiffrer env0 ''docs'' None None None fs_sub) = Inl IsADirectoryError"
    by code_simp
  from r a b have "snd (sauvegarder_et_chiffrer env0 ''docs'' None None None fs_sub)
       [''home'', ''docs_chiffre''] = Some (Dir [''a.txt.encrypted''])
     \<and> snd (sauvegarder_et_chiffrer env0 ''docs'' None None None fs_sub) [''home'', ''cle.key'']
       = None" by auto
  with 3 7 c show ?thesis by simp
qed

subsection \<open>The final name\<close>




subsection \<open>The key file in the vault\<close>

lemma set_str_remove: "set (str_remove old s) \<subseteq> set s"
proof (induction old s rule: str_remove.induct)
  case (1 old)
  then show ?case by simp
next
  case (2 old c cs)
  show ?case
  proof (cases "old \<noteq> [] \<and> startswith (c # cs) old")
    case True
    with 2(1) have "set (str_remove old (drop (length old) (c # cs)))
        \<subseteq> set (drop (length old) (c # cs))" by simp
    also have "\<dots> \<subseteq> set (c # cs)" by (rule set_drop_subset)
    finally show ?thesis using True by simp
  next
    case False
    with 2(2) have "set (str_remove old cs) \<subseteq> set cs" by simp
    with False show ?thesis by auto
  qed
qed

lemma dechiffrer_un_effect:
  assumes "dechiffrer_un e cle p fin s = (r, s')"
  shows "is_dir s' = is_dir s
       \<and> (\<forall>l. contents s' l \<noteq> contents s l \<longrightarrow>
             resolve (cwd e) s p = Some l
             \<or> (resolve (cwd e) s fin = Some l \<and> \<not> is_dir s l))
       \<and> (\<forall>l. contents s l \<noteq> None \<longrightarrow> resolve (cwd e) s p \<noteq> Some l \<longrightarrow> contents s' l \<noteq> None)"
proof (cases "read_file (cwd e) s p")
  case (Inl err)
  with assms show ?thesis by (simp add: dechiffrer_un_def)
next
  case (Inr t)
  note rd = this
  show ?thesis
  proof (cases "decrypt e cle t")
    case None
    with assms rd show ?thesis by (simp add: dechiffrer_un_def)
  next
    case (Some d)
    note dc = this
    show ?thesis
    proof (cases "write_file (cwd e) s fin d")
      case (Inl err)
      with assms rd dc show ?thesis by (simp add: dechiffrer_un_def)
    next
      case (Inr s1)
      note wr = this
      from write_file_Inr[OF wr] obtain lf where lf: "resolve (cwd e) s fin = Some lf"
        and nd: "\<not> is_dir s lf"
        and c1: "contents s1 = (contents s)(lf \<mapsto> d)" and d1: "is_dir s1 = is_dir s" by blast
      show ?thesis
      proof (cases "os_remove (cwd e) s1 p")
        case (Inl err)
        with assms rd dc wr have "s' = s1" by (simp add: dechiffrer_un_def)
        with lf nd c1 d1 show ?thesis by auto
      next
        case (Inr s2)
        with assms rd dc wr have s2: "s' = s2" by (simp add: dechiffrer_un_def)
        from os_remove_Inr[OF Inr] obtain lp where lp: "resolve (cwd e) s1 p = Some lp"
          and c2: "contents s2 = (contents s1)(lp := None)" and d2: "is_dir s2 = is_dir s1"
          by blast
        from lp resolve_cong[OF d1] have lp': "resolve (cwd e) s p = Some lp" by simp
        from s2 lf nd c1 d1 c2 d2 lp' show ?thesis by auto
      qed
    qed
  qed
qed

lemma walk_one:
  "walk s d [g] = Some l \<Longrightarrow> l = d \<or> l = butlast d \<or> l = d @ [g]"
  by (simp split: if_splits)

lemma walk_name: "is_dir s d \<Longrightarrow> is_name f \<Longrightarrow> walk s d [f] = Some (d @ [f])"
  by (simp add: is_name_def)

lemma dechiffrer_dossier_key:
  assumes "resolve (cwd e) s chemin = Some d" and "is_dir s d"
    and "\<forall>f\<in>set xs. is_name f"
    and "dechiffrer_dossier e cle chemin xs s = (r, s')"
  shows "is_dir s' = is_dir s
       \<and> (contents s (d @ [cle_key]) \<noteq> None \<longrightarrow> contents s' (d @ [cle_key]) \<noteq> None)
       \<and> ((\<forall>f\<in>set xs. f \<noteq> cle_key \<longrightarrow> str_remove encrypted_ext f \<noteq> cle_key) \<longrightarrow>
            contents s' (d @ [cle_key]) = contents s (d @ [cle_key]))"
  using assms
proof (induction xs arbitrary: s)
  case Nil
  then show ?case by simp
next
  case (Cons f xs)
  show ?case
  proof (cases "f = cle_key")
    case True
    with Cons.prems have "dechiffrer_dossier e cle chemin xs s = (r, s')" by simp
    from Cons.IH[OF Cons.prems(1,2) _ this] Cons.prems(3) True show ?thesis by simp
  next
    case False
    let ?p = "os_path_join chemin f"
    let ?g = "str_remove encrypted_ext f"
    let ?fin = "os_path_join chemin ?g"
    let ?k = "d @ [cle_key]"
    obtain r1 s1 where u: "dechiffrer_un e cle ?p ?fin s = (r1, s1)"
      by (cases "dechiffrer_un e cle ?p ?fin s") auto
    from Cons.prems(3) have nf: "is_name f" by simp
    then have sf: "sep \<notin> set f" by (simp add: is_name_def)
    with set_str_remove[of encrypted_ext f] have sg: "sep \<notin> set ?g" by auto
    have rp: "resolve (cwd e) s ?p = Some (d @ [f])"
      using resolve_join[OF Cons.prems(1,2) sf] walk_name[OF Cons.prems(2) nf] by simp
    have rf: "resolve (cwd e) s ?fin = walk s d [?g]"
      using resolve_join[OF Cons.prems(1,2) sg] .
    from dechiffrer_un_effect[OF u] have d1: "is_dir s1 = is_dir s"
      and ch: "\<And>l. contents s1 l \<noteq> contents s l \<Longrightarrow>
             resolve (cwd e) s ?p = Some l \<or> (resolve (cwd e) s ?fin = Some l \<and> \<not> is_dir s l)"
      and kp: "\<And>l. contents s l \<noteq> None \<Longrightarrow> resolve (cwd e) s ?p \<noteq> Some l
             \<Longrightarrow> contents s1 l \<noteq> None"
      by blast+
    have pk: "resolve (cwd e) s ?p \<noteq> Some ?k" using rp False by simp
    have keep: "contents s (d @ [cle_key]) \<noteq> None \<longrightarrow> contents s1 (d @ [cle_key]) \<noteq> None"
      using kp[of ?k] pk by blast
    have same: "?g \<noteq> cle_key \<longrightarrow> contents s1 ?k = contents s ?k"
    proof
      assume g: "?g \<noteq> cle_key"
      show "contents s1 ?k = contents s ?k"
      proof (rule ccontr)
        assume "contents s1 ?k \<noteq> contents s ?k"
        from ch[OF this] pk have w: "walk s d [?g] = Some ?k" by (simp add: rf)
        from walk_one[OF w] g show False
          by (auto dest: arg_cong[where f = length])
      qed
    qed
    show ?thesis
    proof (cases r1)
      case (Inl err)
      with Cons.prems(4) False u have "s' = s1" by simp
      with d1 keep same False show ?thesis by simp
    next
      case (Inr v)
      with Cons.prems(4) False u have rest: "dechiffrer_dossier e cle chemin xs s1 = (r, s')"
        by simp
      have r1: "resolve (cwd e) s1 chemin = Some d"
        using resolve_cong[OF d1] Cons.prems(1) by simp
      have i1: "is_dir s1 d" using d1 Cons.prems(2) by simp
      from Cons.prems(3) have n1: "\<forall>f\<in>set xs. is_name f" by simp
      from Cons.IH[OF r1 i1 n1 rest] d1 keep same False show ?thesis by simp
    qed
  qed
qed

lemma dechiffrer_dossier_filter:
  "dechiffrer_dossier e cle chemin xs s
     = dechiffrer_dossier e cle chemin (filter (\<lambda>f. f \<noteq> cle_key) xs) s"
  by (induction xs arbitrary: s) (auto split: prod.splits sum.splits)

text \<open>
  C8. In the restore of a directory the name \<open>cle.key\<close> of the listing is skipped: the
  run is the loop over the listing without that name, so the file is never read as a
  token and never decrypted. It is never removed either: if it was a file before the
  run, it is one after it, whatever the outcome. Its content stays the same unless
  another entry's final name is \<open>cle.key\<close> (such an entry's plaintext is written over
  it).
\<close>

theorem key_file_skipped_by_restore:
  assumes "read_file (cwd e) s
             (case chemin_cle of
                None \<Rightarrow> os_path_join (os_path_dirname chemin_sauvegarde) cle_key
              | Some k \<Rightarrow> k) = Inr cle"
    and "key_valid e cle"
    and "resolve (cwd e) s chemin_sauvegarde = Some d"
    and "s d = Some (Dir fichiers)"
    and "\<forall>f\<in>set fichiers. is_name f"
    and "dechiffrer_fichiers e chemin_sauvegarde chemin_cle s = (r, s')"
  shows "dechiffrer_fichiers e chemin_sauvegarde chemin_cle s
           = dechiffrer_dossier e cle chemin_sauvegarde
               (filter (\<lambda>fichier. fichier \<noteq> cle_key) fichiers) s
       \<and> (contents s (d @ [cle_key]) \<noteq> None \<longrightarrow> contents s' (d @ [cle_key]) \<noteq> None)
       \<and> ((\<forall>f\<in>set fichiers. f \<noteq> cle_key \<longrightarrow> str_remove encrypted_ext f \<noteq> cle_key) \<longrightarrow>
            contents s' (d @ [cle_key]) = contents s (d @ [cle_key]))"
proof -
  from assms(4) have dd: "is_dir s d" by (simp add: is_dir_def)
  with assms(3) have i: "os_path_isdir (cwd e) s chemin_sauvegarde"
    by (auto simp: os_path_isdir_iff)
  from assms(3,4) have l: "os_listdir (cwd e) s chemin_sauvegarde = Inr fichiers"
    by (simp add: os_listdir_def)
  have run: "dechiffrer_fichiers e chemin_sauvegarde chemin_cle s
      = dechiffrer_dossier e cle chemin_sauvegarde fichiers s"
    using assms(1,2) i l by (simp add: dechiffrer_fichiers_def Let_def)
  with assms(6) have "dechiffrer_dossier e cle chemin_sauvegarde fichiers s = (r, s')" by simp
  from dechiffrer_dossier_key[OF assms(3) dd assms(5) this] run
    dechiffrer_dossier_filter[of e cle chemin_sauvegarde fichiers s]
  show ?thesis by simp
qed

theorem key_file_skipped_by_restore_witness:
  "read_file (cwd env0) fs_inside ''vault/cle.key'' = Inr ''K1''
   \<and> os_listdir (cwd env0) fs_inside ''vault/'' = Inr [''cle.key'', ''a.txt.encrypted'']
   \<and> fst (dechiffrer_fichiers env0 ''vault/'' None fs_inside) = Inr ()
   \<and> dechiffrer_fichiers env0 ''vault/'' None fs_inside
       = dechiffrer_dossier env0 ''K1'' ''vault/'' [''a.txt.encrypted''] fs_inside
   \<and> contents (snd (dechiffrer_fichiers env0 ''vault/'' None fs_inside))
        [''home'', ''vault'', ''cle.key''] = Some ''K1''
   \<and> contents (snd (dechiffrer_fichiers env0 ''vault/'' None fs_inside))
        [''home'', ''vault'', ''a.txt''] = Some ''hello''"
proof -
  let ?s' = "snd (dechiffrer_fichiers env0 ''vault/'' None fs_inside)"
  let ?d = "[''home'', ''vault'']"
  have p: "os_path_join (os_path_dirname ''vault/'') cle_key = ''vault/cle.key''" by code_simp
  have k: "read_file (cwd env0) fs_inside ''vault/cle.key'' = Inr ''K1''" by code_simp
  then have 1: "read_file (cwd env0) fs_inside
      (case None of None \<Rightarrow> os_path_join (os_path_dirname ''vault/'') cle_key | Some k \<Rightarrow> k)
      = Inr ''K1''" by (simp add: p)
  have 2: "key_valid env0 ''K1''" by (simp add: env0_def)
  have 3: "resolve (cwd env0) fs_inside ''vault/'' = Some ?d" by code_simp
  have 4: "fs_inside ?d = Some (Dir [''cle.key'', ''a.txt.encrypted''])" by code_simp
  have 5: "\<forall>f\<in>set [''cle.key'', ''a.txt.encrypted'']. is_name f"
    by (simp add: is_name_def sep_def)
  have f: "fst (dechiffrer_fichiers env0 ''vault/'' None fs_inside) = Inr ()" by code_simp
  then have 6: "dechiffrer_fichiers env0 ''vault/'' None fs_inside = (Inr (), ?s')"
    by (simp add: prod_eq_iff)
  have l: "os_listdir (cwd env0) fs_inside ''vault/'' = Inr [''cle.key'', ''a.txt.encrypted'']"
    by code_simp
  have fl: "filter (\<lambda>fichier. fichier \<noteq> cle_key) [''cle.key'', ''a.txt.encrypted'']
      = [''a.txt.encrypted'']" by (simp add: cle_key_def)
  have c0: "contents fs_inside (?d @ [cle_key]) = Some ''K1''" by code_simp
  have sr: "str_remove encrypted_ext ''a.txt.encrypted'' = ''a.txt''" by code_simp
  have nm: "\<forall>f\<in>set [''cle.key'', ''a.txt.encrypted''].
      f \<noteq> cle_key \<longrightarrow> str_remove encrypted_ext f \<noteq> cle_key"
    by (simp add: sr cle_key_def del: str_remove.simps)
  note th = key_file_skipped_by_restore[OF 1 2 3 4 5 6]
  from th have "dechiffrer_fichiers env0 ''vault/'' None fs_inside
       = dechiffrer_dossier env0 ''K1'' ''vault/''
           (filter (\<lambda>fichier. fichier \<noteq> cle_key) [''cle.key'', ''a.txt.encrypted'']) fs_inside"
    by (rule conjunct1)
  then have a: "dechiffrer_fichiers env0 ''vault/'' None fs_inside
       = dechiffrer_dossier env0 ''K1'' ''vault/'' [''a.txt.encrypted''] fs_inside"
    by (simp only: fl)
  from th nm have "contents ?s' (?d @ [cle_key]) = contents fs_inside (?d @ [cle_key])"
    by blast
  with c0 have b: "contents ?s' (?d @ [cle_key]) = Some ''K1''" by (simp only:)
  from b have b': "contents ?s' [''home'', ''vault'', ''cle.key''] = Some ''K1''"
    by (simp add: cle_key_def)
  have c: "contents ?s' [''home'', ''vault'', ''a.txt''] = Some ''hello''" by code_simp
  from k l f a b' c show ?thesis by blast
qed

subsection \<open>The suffix and the components of a path\<close>




lemma ext_nosep: "sep \<notin> set encrypted_ext"
  by (simp add: encrypted_ext_def sep_def)

lemma ext_ne: "encrypted_ext \<noteq> []"
  by (simp add: encrypted_ext_def)



subsection \<open>A single file\<close>


lemma file_not_dir: "contents s l = Some c \<Longrightarrow> \<not> is_dir s l"
  by (auto simp: contents_def is_dir_def split: option.splits node.splits)

text \<open>A backup of a single file with no destination argument that ended without error.\<close>

lemma sauvegarder_fichier_Inr:
  assumes rd: "read_file (cwd e) s src = Inr P"
    and l: "resolve (cwd e) s src = Some l"
    and cle: "cle = (case cle_specifiee of Some k \<Rightarrow> k | None \<Rightarrow> generate_key e)"
    and run: "sauvegarder_et_chiffrer e src None chemin_cle cle_specifiee s = (Inr (), s')"
  shows "\<exists>s1. resolve (cwd e) s (src @ encrypted_ext) = Some (butlast l @ [last l @ encrypted_ext])
           \<and> \<not> is_dir s (butlast l @ [last l @ encrypted_ext])
           \<and> contents s1 = (contents s)(butlast l @ [last l @ encrypted_ext]
                                \<mapsto> encrypt e cle (entropy e 0) P)
           \<and> is_dir s1 = is_dir s \<and> key_valid e cle
           \<and> (case chemin_cle_fichier src chemin_cle cle_specifiee of
                 None \<Rightarrow> s' = s1
               | Some k \<Rightarrow> (\<exists>lk. resolve (cwd e) s k = Some lk \<and> \<not> is_dir s lk
                              \<and> contents s' = (contents s1)(lk \<mapsto> cle)
                              \<and> is_dir s' = is_dir s1))"
proof -
  let ?ld = "butlast l @ [last l @ encrypted_ext]"
  let ?dst = "src @ encrypted_ext"
  from rd l have c: "contents s l = Some P" by (auto simp: read_file_Inr)
  then have nd: "\<not> is_dir s l" by (rule file_not_dir)
  from resolve_append_suffix[OF l nd ext_nosep] have ld: "resolve (cwd e) s ?dst = Some ?ld" .
  from l nd have nodir: "\<not> os_path_isdir (cwd e) s src" by (auto simp: os_path_isdir_iff)
  from l c have isf: "os_path_isfile (cwd e) s src" by (auto simp: os_path_isfile_iff)
  from run have v: "key_valid e cle"
    by (auto simp: sauvegarder_et_chiffrer_def Let_def cle split: if_splits)
  have ts: "traiter_source e cle src None s =
      (case copier_et_chiffrer e cle 0 src ?dst s of
         (Inl err, s2) \<Rightarrow> (Inl err, s2) | (Inr u, s2) \<Rightarrow> (Inr (Some ?dst), s2))"
    using nodir isf by (simp add: traiter_source_def Let_def)
  obtain r1 s1 where cp: "copier_et_chiffrer e cle 0 src ?dst s = (r1, s1)"
    by (cases "copier_et_chiffrer e cle 0 src ?dst s") auto
  have full: "sauvegarder_et_chiffrer e src None chemin_cle cle_specifiee s =
      (case traiter_source e cle src None s of
         (Inl err, s1) \<Rightarrow> (Inl err, s1)
       | (Inr d, s1) \<Rightarrow> enregistrer_cle e cle d chemin_cle cle_specifiee s1)"
    using v by (simp add: sauvegarder_et_chiffrer_def Let_def cle[symmetric])
  have r1: "r1 = Inr ()"
  proof (cases r1)
    case (Inl err)
    with full ts cp run show ?thesis by simp
  next
    case (Inr u)
    then show ?thesis by simp
  qed
  with cp have cp': "copier_et_chiffrer e cle 0 src ?dst s = (Inr (), s1)" by simp
  from copier_et_chiffrer_Inr[OF cp'] rd ld
  have c1: "contents s1 = (contents s)(?ld \<mapsto> encrypt e cle (entropy e 0) P)"
    and d1: "is_dir s1 = is_dir s" and ndl: "\<not> is_dir s ?ld" by auto
  from full ts cp' run
  have k: "enregistrer_cle e cle (Some ?dst) chemin_cle cle_specifiee s1 = (Inr (), s')"
    by simp
  have "case chemin_cle_fichier src chemin_cle cle_specifiee of
                 None \<Rightarrow> s' = s1
               | Some k \<Rightarrow> (\<exists>lk. resolve (cwd e) s k = Some lk \<and> \<not> is_dir s lk
                              \<and> contents s' = (contents s1)(lk \<mapsto> cle)
                              \<and> is_dir s' = is_dir s1)"
  proof (cases "chemin_cle_fichier src chemin_cle cle_specifiee")
    case None
    then have "chemin_cle = None" "cle_specifiee \<noteq> None"
      by (auto simp: chemin_cle_fichier_def split: option.splits)
    with k None show ?thesis by (auto simp: enregistrer_cle_def)
  next
    case (Some kp)
    with k have "ecrire_cle e kp cle s1 = (Inr (), s')"
      by (auto simp: enregistrer_cle_def chemin_cle_fichier_def split: option.splits if_splits)
    from ecrire_cle_Inr[OF this] resolve_cong[OF d1] d1 Some show ?thesis by auto
  qed
  with ld ndl c1 d1 v show ?thesis by blast
qed

text \<open>
  C6, as the code has it. A backup of a single file with no destination argument that
  ends without error leaves the encrypted file beside the source, under the source's name
  followed by \<open>.encrypted\<close>. The only files whose content differs after the run are that
  file and the key file, if the run writes one; no directory is made or removed. The
  source keeps its content provided the key file's path does not denote the source
  itself. The encrypted file holds the token of the source's bytes provided the key
  file's path does not denote the encrypted file.
\<close>

theorem single_file_backup_effect:
  assumes "read_file (cwd e) s chemin_source = Inr P"
    and "resolve (cwd e) s chemin_source = Some l"
    and "cle = (case cle_specifiee of Some k \<Rightarrow> k | None \<Rightarrow> generate_key e)"
    and "sauvegarder_et_chiffrer e chemin_source None chemin_cle cle_specifiee s = (Inr (), s')"
  shows "resolve (cwd e) s' (chemin_source @ encrypted_ext)
           = Some (butlast l @ [last l @ encrypted_ext])
       \<and> contents s' (butlast l @ [last l @ encrypted_ext]) \<noteq> None
       \<and> (\<forall>l'. contents s' l' \<noteq> contents s l' \<longrightarrow>
              l' = butlast l @ [last l @ encrypted_ext]
              \<or> (\<exists>k. chemin_cle_fichier chemin_source chemin_cle cle_specifiee = Some k
                     \<and> resolve (cwd e) s k = Some l'))
       \<and> is_dir s' = is_dir s
       \<and> ((\<forall>k. chemin_cle_fichier chemin_source chemin_cle cle_specifiee = Some k
                \<longrightarrow> resolve (cwd e) s k \<noteq> Some l)
            \<longrightarrow> read_file (cwd e) s' chemin_source = Inr P)
       \<and> ((\<forall>k. chemin_cle_fichier chemin_source chemin_cle cle_specifiee = Some k
                \<longrightarrow> resolve (cwd e) s k \<noteq> Some (butlast l @ [last l @ encrypted_ext]))
            \<longrightarrow> read_file (cwd e) s' (chemin_source @ encrypted_ext)
                  = Inr (encrypt e cle (entropy e 0) P))"
proof -
  let ?ld = "butlast l @ [last l @ encrypted_ext]"
  let ?T = "encrypt e cle (entropy e 0) P"
  let ?kp = "chemin_cle_fichier chemin_source chemin_cle cle_specifiee"
  from sauvegarder_fichier_Inr[OF assms] obtain s1 where
    ld: "resolve (cwd e) s (chemin_source @ encrypted_ext) = Some ?ld"
    and c1: "contents s1 = (contents s)(?ld \<mapsto> ?T)"
    and d1: "is_dir s1 = is_dir s"
    and k: "case ?kp of
              None \<Rightarrow> s' = s1
            | Some k \<Rightarrow> (\<exists>lk. resolve (cwd e) s k = Some lk \<and> \<not> is_dir s lk
                           \<and> contents s' = (contents s1)(lk \<mapsto> cle)
                           \<and> is_dir s' = is_dir s1)"
    by blast
  from assms(1,2) have cl: "contents s l = Some P" by (auto simp: read_file_Inr)
  then have nd: "\<not> is_dir s l" by (rule file_not_dir)
  from resolve_file_last[OF assms(2) nd] have lne: "l \<noteq> []" by auto
  have neq: "?ld \<noteq> l"
  proof
    assume "?ld = l"
    then have "last ?ld = last l" by simp
    then show False using ext_ne by simp
  qed
  have main: "is_dir s' = is_dir s
      \<and> (\<exists>f. contents s' = f \<and> f ?ld \<noteq> None
             \<and> (\<forall>l'. f l' \<noteq> contents s l' \<longrightarrow> l' = ?ld
                    \<or> (\<exists>k. ?kp = Some k \<and> resolve (cwd e) s k = Some l'))
             \<and> ((\<forall>k. ?kp = Some k \<longrightarrow> resolve (cwd e) s k \<noteq> Some l) \<longrightarrow> f l = Some P)
             \<and> ((\<forall>k. ?kp = Some k \<longrightarrow> resolve (cwd e) s k \<noteq> Some ?ld) \<longrightarrow> f ?ld = Some ?T))"
  proof (cases ?kp)
    case None
    with k have "s' = s1" by simp
    with c1 d1 cl neq None show ?thesis by auto
  next
    case (Some kp)
    with k obtain lk where lk: "resolve (cwd e) s kp = Some lk"
      and c2: "contents s' = (contents s1)(lk \<mapsto> cle)" and d2: "is_dir s' = is_dir s1"
      by auto
    from c1 c2 d1 d2 cl neq Some lk show ?thesis by auto
  qed
  then have d: "is_dir s' = is_dir s" by blast
  have rs: "resolve (cwd e) s' (chemin_source @ encrypted_ext) = Some ?ld"
    using resolve_cong[OF d] ld by simp
  have rl: "resolve (cwd e) s' chemin_source = Some l"
    using resolve_cong[OF d] assms(2) by simp
  from main rs rl show ?thesis by (auto simp: read_file_Inr)
qed

theorem single_file_backup_effect_witness:
  "read_file (cwd env0) fs_docs ''docs/a.txt'' = Inr ''hello''
   \<and> fst (sauvegarder_et_chiffrer env0 ''docs/a.txt'' None None None fs_docs) = Inr ()
   \<and> resolve (cwd env0) (snd (sauvegarder_et_chiffrer env0 ''docs/a.txt'' None None None fs_docs))
        ''docs/a.txt.encrypted'' = Some [''home'', ''docs'', ''a.txt.encrypted'']
   \<and> read_file (cwd env0) (snd (sauvegarder_et_chiffrer env0 ''docs/a.txt'' None None None fs_docs))
        ''docs/a.txt'' = Inr ''hello''
   \<and> read_file (cwd env0) (snd (sauvegarder_et_chiffrer env0 ''docs/a.txt'' None None None fs_docs))
        ''docs/a.txt.encrypted'' = Inr ''K1r0hello''"
proof -
  let ?s' = "snd (sauvegarder_et_chiffrer env0 ''docs/a.txt'' None None None fs_docs)"
  let ?l = "[''home'', ''docs'', ''a.txt'']"
  have 1: "read_file (cwd env0) fs_docs ''docs/a.txt'' = Inr ''hello''" by code_simp
  have 2: "resolve (cwd env0) fs_docs ''docs/a.txt'' = Some ?l" by code_simp
  have 3: "''K1'' = (case None of Some k \<Rightarrow> k | None \<Rightarrow> generate_key env0)"
    by (simp add: env0_def)
  have f: "fst (sauvegarder_et_chiffrer env0 ''docs/a.txt'' None None None fs_docs) = Inr ()"
    by code_simp
  then have 4: "sauvegarder_et_chiffrer env0 ''docs/a.txt'' None None None fs_docs = (Inr (), ?s')"
    by (simp add: prod_eq_iff)
  have kp: "chemin_cle_fichier ''docs/a.txt'' None None = Some ''docs/cle.key''" by code_simp
  have rk: "resolve (cwd env0) fs_docs ''docs/cle.key'' = Some [''home'', ''docs'', ''cle.key'']"
    by code_simp
  have ld: "butlast ?l @ [last ?l @ encrypted_ext] = [''home'', ''docs'', ''a.txt.encrypted'']"
    by (simp add: encrypted_ext_def)
  have ap: "''docs/a.txt'' @ encrypted_ext = ''docs/a.txt.encrypted''"
    by (simp add: encrypted_ext_def)
  have tk: "encrypt env0 ''K1'' (entropy env0 0) ''hello'' = ''K1r0hello''"
    by (simp add: env0_def toy_encrypt_def)
  note th = single_file_backup_effect[OF 1 2 3 4]
  have h1: "\<forall>k. chemin_cle_fichier ''docs/a.txt'' None None = Some k
      \<longrightarrow> resolve (cwd env0) fs_docs k \<noteq> Some ?l"
    by (simp add: kp rk)
  have h2: "\<forall>k. chemin_cle_fichier ''docs/a.txt'' None None = Some k
      \<longrightarrow> resolve (cwd env0) fs_docs k \<noteq> Some (butlast ?l @ [last ?l @ encrypted_ext])"
    by (simp add: kp rk ld)
  from th have a: "resolve (cwd env0) ?s' (''docs/a.txt'' @ encrypted_ext)
      = Some (butlast ?l @ [last ?l @ encrypted_ext])" by (rule conjunct1)
  from th h1 have b: "read_file (cwd env0) ?s' ''docs/a.txt'' = Inr ''hello''" by blast
  from th h2 have c: "read_file (cwd env0) ?s' (''docs/a.txt'' @ encrypted_ext)
      = Inr (encrypt env0 ''K1'' (entropy env0 0) ''hello'')" by blast
  from a have a': "resolve (cwd env0) ?s' ''docs/a.txt.encrypted''
      = Some [''home'', ''docs'', ''a.txt.encrypted'']" by (simp only: ld ap)
  from c have c': "read_file (cwd env0) ?s' ''docs/a.txt.encrypted'' = Inr ''K1r0hello''"
    by (simp only: ap tk)
  from 1 f a' b c' show ?thesis by blast
qed

text \<open>
  C6 as stated fails for a source named as the key file is: the run writes the key over
  the source.
\<close>

theorem single_file_backup_overwrites_source:
  "read_file (cwd env0) fs_secret ''cle.key'' = Inr ''secret''
   \<and> fst (sauvegarder_et_chiffrer env0 ''cle.key'' None None None fs_secret) = Inr ()
   \<and> read_file (cwd env0) (snd (sauvegarder_et_chiffrer env0 ''cle.key'' None None None fs_secret))
        ''cle.key'' = Inr ''K1''"
  by code_simp

subsection \<open>Backup, then restore\<close>



subsection \<open>Listings\<close>









subsection \<open>A new vault\<close>







subsection \<open>The backup loop\<close>







subsection \<open>The restore loop\<close>



subsection \<open>A directory, there and back\<close>







subsection \<open>The round trip\<close>







end
